theory Spec2Isabelle
  imports Complex_Main
begin

section \<open>Numbers\<close>

text \<open>
  A TypeScript \<open>number\<close> is an IEEE 754 double: a finite number (\<open>Fin 0\<close> is \<open>+0\<close>), the
  negative zero, an infinity or \<open>NaN\<close>. Every arithmetic operation computes the exact real
  result and rounds it to the nearest double, ties to the even significand, with overflow
  to an infinity and gradual underflow to a zero.
\<close>

datatype jsnum = Fin real | NegZero | PosInf | NegInf | NaN

subsection \<open>Rounding to the nearest double\<close>

text \<open>
  The binary exponent of a real, not below that of the subnormal numbers, and the distance
  of the doubles around it: a significand has 53 bits.
\<close>

definition binade :: "real \<Rightarrow> int" where
  "binade x = max \<lfloor>log 2 \<bar>x\<bar>\<rfloor> (- 1022)"

definition ulp :: "real \<Rightarrow> real" where
  "ulp x = 2 powr (of_int (binade x) - 52)"

definition round_half_even :: "real \<Rightarrow> int" where
  "round_half_even q =
     (let f = \<lfloor>q\<rfloor> in
      if q - of_int f < 1 / 2 then f
      else if 1 / 2 < q - of_int f then f + 1
      else if even f then f else f + 1)"

definition round_magnitude :: "real \<Rightarrow> real" where
  "round_magnitude x = (if x = 0 then 0 else of_int (round_half_even (x / ulp x)) * ulp x)"

text \<open>
  The double nearest to the real \<open>x\<close>; \<open>negative\<close> is the sign of the result, which for
  \<open>x \<noteq> 0\<close> is the sign of \<open>x\<close> and for a zero is given by the operation that rounds.
\<close>

definition js_round_to :: "bool \<Rightarrow> real \<Rightarrow> jsnum" where
  "js_round_to negative x =
     (let y = round_magnitude \<bar>x\<bar> in
      if 2 ^ 1024 \<le> y then (if negative then NegInf else PosInf)
      else if y = 0 then (if negative then NegZero else Fin 0)
      else Fin (if negative then - y else y))"

definition js_round :: "real \<Rightarrow> jsnum" where
  "js_round x = js_round_to (x < 0) x"

text \<open>The finite doubles are the reals that rounding leaves as they are.\<close>

definition is_double :: "real \<Rightarrow> bool" where
  "is_double x \<longleftrightarrow> js_round x = Fin x"

subsection \<open>Operations\<close>

fun js_finite :: "jsnum \<Rightarrow> real option" where
  "js_finite (Fin x) = Some x"
| "js_finite NegZero = Some 0"
| "js_finite _ = None"

fun js_negative :: "jsnum \<Rightarrow> bool" where
  "js_negative (Fin x) = (x < 0)"
| "js_negative NegZero = True"
| "js_negative NegInf = True"
| "js_negative _ = False"

definition js_is_zero :: "jsnum \<Rightarrow> bool" where
  "js_is_zero a \<longleftrightarrow> js_finite a = Some 0"

definition js_signed_inf :: "bool \<Rightarrow> jsnum" where
  "js_signed_inf negative = (if negative then NegInf else PosInf)"

definition js_signed_zero :: "bool \<Rightarrow> jsnum" where
  "js_signed_zero negative = (if negative then NegZero else Fin 0)"

text \<open>
  The order of the numbers for \<open><\<close>, \<open><=\<close>, \<open>>\<close>, \<open>>=\<close>: \<open>NaN\<close> has no place in it and
  the two zeros have the same.
\<close>

fun js_ord :: "jsnum \<Rightarrow> (int \<times> real) option" where
  "js_ord (Fin x) = Some (0, x)"
| "js_ord NegZero = Some (0, 0)"
| "js_ord PosInf = Some (1, 0)"
| "js_ord NegInf = Some (- 1, 0)"
| "js_ord NaN = None"

definition js_lt :: "jsnum \<Rightarrow> jsnum \<Rightarrow> bool" where
  "js_lt a b =
     (case (js_ord a, js_ord b) of
        (Some (i, x), Some (j, y)) \<Rightarrow> i < j \<or> (i = j \<and> x < y)
      | _ \<Rightarrow> False)"

definition js_le :: "jsnum \<Rightarrow> jsnum \<Rightarrow> bool" where
  "js_le a b =
     (case (js_ord a, js_ord b) of
        (Some (i, x), Some (j, y)) \<Rightarrow> i < j \<or> (i = j \<and> x \<le> y)
      | _ \<Rightarrow> False)"

definition js_gt :: "jsnum \<Rightarrow> jsnum \<Rightarrow> bool" where
  "js_gt a b = js_lt b a"

definition js_ge :: "jsnum \<Rightarrow> jsnum \<Rightarrow> bool" where
  "js_ge a b = js_le b a"

text \<open>\<open>ToBoolean\<close> of a number, for \<open>||\<close>: the zeros and \<open>NaN\<close> are falsy.\<close>

definition js_truthy :: "jsnum \<Rightarrow> bool" where
  "js_truthy a \<longleftrightarrow> a \<noteq> NaN \<and> \<not> js_is_zero a"

fun js_neg :: "jsnum \<Rightarrow> jsnum" where
  "js_neg (Fin x) = (if x = 0 then NegZero else Fin (- x))"
| "js_neg NegZero = Fin 0"
| "js_neg PosInf = NegInf"
| "js_neg NegInf = PosInf"
| "js_neg NaN = NaN"

definition js_add :: "jsnum \<Rightarrow> jsnum \<Rightarrow> jsnum" where
  "js_add a b =
     (case (js_finite a, js_finite b) of
        (Some x, Some y) \<Rightarrow>
          if x + y = 0 then js_signed_zero (js_negative a \<and> js_negative b)
          else js_round (x + y)
      | _ \<Rightarrow>
          if a = NaN \<or> b = NaN then NaN
          else if (a = PosInf \<and> b = NegInf) \<or> (a = NegInf \<and> b = PosInf) then NaN
          else if a = PosInf \<or> b = PosInf then PosInf
          else NegInf)"

definition js_sub :: "jsnum \<Rightarrow> jsnum \<Rightarrow> jsnum" where
  "js_sub a b = js_add a (js_neg b)"

definition js_mul :: "jsnum \<Rightarrow> jsnum \<Rightarrow> jsnum" where
  "js_mul a b =
     (if a = NaN \<or> b = NaN then NaN
      else case (js_finite a, js_finite b) of
        (Some x, Some y) \<Rightarrow> js_round_to (js_negative a \<noteq> js_negative b) (x * y)
      | _ \<Rightarrow>
          if js_is_zero a \<or> js_is_zero b then NaN
          else js_signed_inf (js_negative a \<noteq> js_negative b))"

definition js_div :: "jsnum \<Rightarrow> jsnum \<Rightarrow> jsnum" where
  "js_div a b =
     (if a = NaN \<or> b = NaN then NaN
      else case (js_finite a, js_finite b) of
        (Some x, Some y) \<Rightarrow>
          if y = 0 then (if x = 0 then NaN else js_signed_inf (js_negative a \<noteq> js_negative b))
          else js_round_to (js_negative a \<noteq> js_negative b) (x / y)
      | (Some x, None) \<Rightarrow> js_signed_zero (js_negative a \<noteq> js_negative b)
      | (None, Some y) \<Rightarrow> js_signed_inf (js_negative a \<noteq> js_negative b)
      | (None, None) \<Rightarrow> NaN)"

text \<open>\<open>Math.floor\<close>: the floor of a double is a double, and \<open>-0\<close> stays \<open>-0\<close>.\<close>

fun js_floor :: "jsnum \<Rightarrow> jsnum" where
  "js_floor (Fin x) = Fin (of_int \<lfloor>x\<rfloor>)"
| "js_floor a = a"

text \<open>\<open>Math.max\<close> and \<open>Math.min\<close> of two numbers: \<open>+0\<close> is the larger zero.\<close>

definition js_max :: "jsnum \<Rightarrow> jsnum \<Rightarrow> jsnum" where
  "js_max a b =
     (if a = NaN \<or> b = NaN then NaN
      else if js_lt a b then b
      else if js_lt b a then a
      else if js_is_zero a then js_signed_zero (a = NegZero \<and> b = NegZero)
      else a)"

definition js_min :: "jsnum \<Rightarrow> jsnum \<Rightarrow> jsnum" where
  "js_min a b =
     (if a = NaN \<or> b = NaN then NaN
      else if js_lt a b then a
      else if js_lt b a then b
      else if js_is_zero a then js_signed_zero (a = NegZero \<or> b = NegZero)
      else a)"

text \<open>
  \<open>Math.pow\<close>, case by case as ECMAScript's \<open>Number::exponentiate\<close> lists them. Where
  ECMAScript leaves the result ``implementation-approximated'' (finite nonzero base and
  exponent) it is the correctly rounded power.
\<close>

definition js_odd_integer :: "jsnum \<Rightarrow> bool" where
  "js_odd_integer e = (case e of Fin y \<Rightarrow> y = of_int \<lfloor>y\<rfloor> \<and> odd \<lfloor>y\<rfloor> | _ \<Rightarrow> False)"

definition js_pow :: "jsnum \<Rightarrow> jsnum \<Rightarrow> jsnum" where
  "js_pow b e =
     (if e = NaN then NaN
      else if js_is_zero e then Fin 1
      else if b = NaN then NaN
      else
        let positive = js_lt (Fin 0) e; odd_int = js_odd_integer e
        in case b of
             PosInf \<Rightarrow> if positive then PosInf else Fin 0
           | NegInf \<Rightarrow>
               if positive then (if odd_int then NegInf else PosInf)
               else (if odd_int then NegZero else Fin 0)
           | NegZero \<Rightarrow>
               if positive then (if odd_int then NegZero else Fin 0)
               else (if odd_int then NegInf else PosInf)
           | Fin x \<Rightarrow>
               if x = 0 then (if positive then Fin 0 else PosInf)
               else (case e of
                       PosInf \<Rightarrow> if 1 < \<bar>x\<bar> then PosInf else if \<bar>x\<bar> = 1 then NaN else Fin 0
                     | NegInf \<Rightarrow> if 1 < \<bar>x\<bar> then Fin 0 else if \<bar>x\<bar> = 1 then NaN else PosInf
                     | Fin y \<Rightarrow>
                         if 0 < x then js_round_to False (x powr y)
                         else if y = of_int \<lfloor>y\<rfloor> then js_round_to (odd \<lfloor>y\<rfloor>) (\<bar>x\<bar> powr y)
                         else NaN
                     | _ \<Rightarrow> NaN)
           | NaN \<Rightarrow> NaN)"

section \<open>Data model\<close>

record RankDefinition =
  rank :: string
  minLevel :: real
  maxLevel :: real
  title :: string

text \<open>
  The optional fields of \<open>LevelCalculationOptions\<close>: \<open>None\<close> is an absent property (a
  property that is present and holds \<open>undefined\<close> is not represented).
\<close>

record LevelCalculationOptions =
  baseXP :: "jsnum option"
  exponent :: "jsnum option"
  maxLevel :: "jsnum option"

text \<open>\<open>Required<LevelCalculationOptions>\<close>, the type of \<open>DEFAULT_OPTIONS\<close> and of \<open>opts\<close>.\<close>

record RequiredOptions =
  opts_baseXP :: jsnum
  opts_exponent :: jsnum
  opts_maxLevel :: jsnum

definition DEFAULT_OPTIONS :: RequiredOptions where
  "DEFAULT_OPTIONS =
     \<lparr> opts_baseXP = Fin 100, opts_exponent = Fin (3 / 2), opts_maxLevel = Fin 100 \<rparr>"

definition DEFAULT_RANKS :: "RankDefinition list" where
  "DEFAULT_RANKS =
     [ \<lparr> rank = ''trainee'', minLevel = 1, maxLevel = 10, title = ''Trainee'' \<rparr>,
       \<lparr> rank = ''junior'', minLevel = 11, maxLevel = 25, title = ''Junior'' \<rparr>,
       \<lparr> rank = ''intermediate'', minLevel = 26, maxLevel = 50, title = ''Intermediate'' \<rparr>,
       \<lparr> rank = ''senior'', minLevel = 51, maxLevel = 75, title = ''Senior'' \<rparr>,
       \<lparr> rank = ''expert'', minLevel = 76, maxLevel = 90, title = ''Expert'' \<rparr>,
       \<lparr> rank = ''master'', minLevel = 91, maxLevel = 100, title = ''Master'' \<rparr> ]"

text \<open>The spread \<open>{ ...DEFAULT_OPTIONS, ...options }\<close>: a present property overrides the default.\<close>

definition merge_options :: "LevelCalculationOptions \<Rightarrow> RequiredOptions" where
  "merge_options options =
     \<lparr> opts_baseXP = (case baseXP options of Some v \<Rightarrow> v | None \<Rightarrow> opts_baseXP DEFAULT_OPTIONS),
       opts_exponent = (case exponent options of Some v \<Rightarrow> v | None \<Rightarrow> opts_exponent DEFAULT_OPTIONS),
       opts_maxLevel = (case LevelCalculationOptions.maxLevel options of Some v \<Rightarrow> v
                        | None \<Rightarrow> opts_maxLevel DEFAULT_OPTIONS) \<rparr>"

text \<open>The fields of the merged \<open>opts\<close> of a call with argument \<open>options\<close>.\<close>

abbreviation cfg_baseXP :: "LevelCalculationOptions \<Rightarrow> jsnum" where
  "cfg_baseXP options \<equiv> opts_baseXP (merge_options options)"

abbreviation cfg_exponent :: "LevelCalculationOptions \<Rightarrow> jsnum" where
  "cfg_exponent options \<equiv> opts_exponent (merge_options options)"

abbreviation cfg_maxLevel :: "LevelCalculationOptions \<Rightarrow> jsnum" where
  "cfg_maxLevel options \<equiv> opts_maxLevel (merge_options options)"


section \<open>Curve engine\<close>

definition getRequiredXP :: "jsnum \<Rightarrow> LevelCalculationOptions \<Rightarrow> jsnum" where
  "getRequiredXP level options =
     (let opts = merge_options options in
      if js_lt level (Fin 1) then Fin 0
      else
        let level = (if js_gt level (opts_maxLevel opts) then opts_maxLevel opts else level)
        in js_floor (js_mul (opts_baseXP opts) (js_pow level (opts_exponent opts))))"

text \<open>
  The \<open>while (low <= high)\<close> loop of \<open>calculateLevel\<close>, on its variables \<open>low\<close>, \<open>high\<close>
  and \<open>currentLevel\<close>. The loop need not end: \<open>None\<close> is a run that never returns.
\<close>

partial_function (option) calculateLevel_loop ::
  "jsnum \<Rightarrow> LevelCalculationOptions \<Rightarrow> jsnum \<Rightarrow> jsnum \<Rightarrow> jsnum \<Rightarrow> jsnum option" where
  "calculateLevel_loop totalXP options low high currentLevel =
     (if js_le low high then
        let mid = js_floor (js_div (js_add low high) (Fin 2));
            requiredXP = getRequiredXP mid options
        in if js_le requiredXP totalXP
           then calculateLevel_loop totalXP options (js_add mid (Fin 1)) high mid
           else calculateLevel_loop totalXP options low (js_sub mid (Fin 1)) currentLevel
      else Some currentLevel)"

definition calculateLevel :: "jsnum \<Rightarrow> LevelCalculationOptions \<Rightarrow> jsnum option" where
  "calculateLevel totalXP options =
     (let opts = merge_options options in
      if js_lt totalXP (Fin 0) then Some (Fin 1)
      else calculateLevel_loop totalXP options (Fin 1) (opts_maxLevel opts) (Fin 1))"

text \<open>
  \<open>options.maxLevel || DEFAULT_OPTIONS.maxLevel\<close>: an absent \<open>maxLevel\<close>, a zero and \<open>NaN\<close>
  are falsy and give the default.
\<close>

definition maxLevel_or_default :: "LevelCalculationOptions \<Rightarrow> jsnum" where
  "maxLevel_or_default options =
     (case LevelCalculationOptions.maxLevel options of
        None \<Rightarrow> opts_maxLevel DEFAULT_OPTIONS
      | Some m \<Rightarrow> if js_truthy m then m else opts_maxLevel DEFAULT_OPTIONS)"

definition getXPProgress :: "jsnum \<Rightarrow> LevelCalculationOptions \<Rightarrow> jsnum option" where
  "getXPProgress currentXP options =
     (case calculateLevel currentXP options of
        None \<Rightarrow> None
      | Some currentLevel \<Rightarrow>
          let currentLevelXP = getRequiredXP currentLevel options;
              nextLevelXP = getRequiredXP (js_add currentLevel (Fin 1)) options
          in if js_ge currentLevel (maxLevel_or_default options) then Some (Fin 100)
             else
               let xpInCurrentLevel = js_sub currentXP currentLevelXP;
                   xpNeededForNext = js_sub nextLevelXP currentLevelXP
               in Some (js_min (Fin 100)
                    (js_max (Fin 0)
                       (js_mul (js_div xpInCurrentLevel xpNeededForNext) (Fin 100)))))"

definition getXPToNextLevel :: "jsnum \<Rightarrow> LevelCalculationOptions \<Rightarrow> jsnum option" where
  "getXPToNextLevel currentXP options =
     (case calculateLevel currentXP options of
        None \<Rightarrow> None
      | Some currentLevel \<Rightarrow>
          let nextLevelXP = getRequiredXP (js_add currentLevel (Fin 1)) options
          in Some (js_max (Fin 0) (js_sub nextLevelXP currentXP)))"

section \<open>Rank resolver\<close>

text \<open>
  \<open>customRanks || DEFAULT_RANKS\<close>: \<open>None\<close> is the omitted argument; every array, the
  empty one too, is truthy. \<open>find\<close> yields the first match, and \<open>|| null\<close> turns
  \<open>undefined\<close> into \<open>null\<close>, here \<open>None\<close>. The lookup only compares numbers, so a level
  and the bounds of a range are the reals that they hold.
\<close>

definition getRank :: "real \<Rightarrow> RankDefinition list option \<Rightarrow> RankDefinition option" where
  "getRank level customRanks =
     (let ranks = (case customRanks of Some t \<Rightarrow> t | None \<Rightarrow> DEFAULT_RANKS)
      in find (\<lambda>r. level \<ge> minLevel r \<and> level \<le> RankDefinition.maxLevel r) ranks)"

definition getRankTitle :: "real \<Rightarrow> RankDefinition list option \<Rightarrow> string" where
  "getRankTitle level customRanks =
     (case getRank level customRanks of Some r \<Rightarrow> title r | None \<Rightarrow> '''')"

section \<open>Specification predicates\<close>


section \<open>Rounding\<close>

lemma ulp_pos: "0 < ulp x"
  by (simp add: ulp_def)

lemma binade_ge: "- 1022 \<le> binade x"
  by (simp add: binade_def)

lemma ulp_scale52: "2 ^ 52 * ulp x = 2 powr of_int (binade x)"
proof -
  have "(2::real) ^ 52 * ulp x = 2 powr 52 * 2 powr (of_int (binade x) - 52)"
    by (simp add: ulp_def)
  also have "\<dots> = 2 powr (52 + (of_int (binade x) - 52))" by (rule powr_add [symmetric])
  finally show ?thesis by simp
qed

lemma ulp_scale53: "2 ^ 53 * ulp x = 2 powr (of_int (binade x) + 1)"
proof -
  have "(2::real) ^ 53 * ulp x = 2 powr 53 * 2 powr (of_int (binade x) - 52)"
    by (simp add: ulp_def)
  also have "\<dots> = 2 powr (53 + (of_int (binade x) - 52))" by (rule powr_add [symmetric])
  finally show ?thesis by (simp add: add.commute)
qed

lemma binade_upper:
  assumes "0 < x"
  shows "x < 2 powr (of_int (binade x) + 1)"
proof -
  have "log 2 x < of_int \<lfloor>log 2 x\<rfloor> + 1" by linarith
  also have "\<dots> \<le> of_int (binade x) + 1" using assms by (simp add: binade_def)
  finally have "log 2 x < of_int (binade x) + 1" .
  then show ?thesis using assms by (simp add: log_less_iff)
qed

lemma binade_lower:
  assumes "2 powr (- 1022) \<le> x"
  shows "2 powr of_int (binade x) \<le> x"
proof -
  have pos: "0 < x" using assms by (rule less_le_trans [rotated]) simp
  have "- 1022 \<le> log 2 x" using assms pos by (simp add: le_log_iff)
  then have "(- 1022 :: int) \<le> \<lfloor>log 2 x\<rfloor>" by (simp add: le_floor_iff)
  then have "binade x = \<lfloor>log 2 x\<rfloor>" using pos by (simp add: binade_def)
  moreover have "of_int \<lfloor>log 2 x\<rfloor> \<le> log 2 x" by simp
  ultimately have "of_int (binade x) \<le> log 2 x" by simp
  then show ?thesis using pos by (simp add: le_log_iff)
qed

lemma binade_mono:
  assumes "0 < x" and "x \<le> y"
  shows "binade x \<le> binade y"
proof -
  have "log 2 x \<le> log 2 y" using assms by (intro log_mono) simp_all
  then have "\<lfloor>log 2 x\<rfloor> \<le> \<lfloor>log 2 y\<rfloor>" by (rule floor_mono)
  then show ?thesis using assms by (simp add: binade_def)
qed

lemma binade_eqI:
  assumes "2 powr of_int k \<le> x" and "x < 2 powr (of_int k + 1)" and "- 1022 \<le> k"
  shows "binade x = k"
proof -
  have pos: "0 < x" using assms(1) by (rule less_le_trans [rotated]) simp
  have "\<lfloor>log 2 x\<rfloor> = k" using assms(1,2) pos by (simp add: floor_log_eq_powr_iff)
  then show ?thesis using pos assms(3) by (simp add: binade_def)
qed

lemma binade_subnormal:
  assumes "0 < x" and "x < 2 powr (- 1022)"
  shows "binade x = - 1022"
proof -
  have "log 2 x < - 1022" using assms by (simp add: log_less_iff)
  then have "\<lfloor>log 2 x\<rfloor> < - 1022" by (simp add: floor_less_iff)
  then show ?thesis using assms(1) by (simp add: binade_def)
qed

lemma quotient_upper:
  assumes "0 < x"
  shows "x / ulp x < 2 ^ 53"
proof -
  have "x < 2 powr (of_int (binade x) + 1)" using assms by (rule binade_upper)
  also have "\<dots> = 2 ^ 53 * ulp x" by (rule ulp_scale53 [symmetric])
  finally show ?thesis using ulp_pos [of x] by (simp add: pos_divide_less_eq)
qed

lemma quotient_lower:
  assumes "2 powr (- 1022) \<le> x"
  shows "2 ^ 52 \<le> x / ulp x"
proof -
  have "2 ^ 52 * ulp x = 2 powr of_int (binade x)" by (rule ulp_scale52)
  also have "\<dots> \<le> x" using assms by (rule binade_lower)
  finally show ?thesis using ulp_pos [of x] by (simp add: pos_le_divide_eq)
qed

subsection \<open>Rounding an integer quotient\<close>

lemma round_half_even_of_int [simp]: "round_half_even (of_int n) = n"
  by (simp add: round_half_even_def)

lemma round_half_even_cases:
  "round_half_even q = \<lfloor>q\<rfloor> \<or> round_half_even q = \<lfloor>q\<rfloor> + 1"
  by (simp add: round_half_even_def Let_def)

lemma round_half_even_mono:
  assumes "q \<le> r"
  shows "round_half_even q \<le> round_half_even r"
proof (cases "\<lfloor>q\<rfloor> = \<lfloor>r\<rfloor>")
  case True
  then show ?thesis using assms by (auto simp add: round_half_even_def Let_def)
next
  case False
  then have "\<lfloor>q\<rfloor> + 1 \<le> \<lfloor>r\<rfloor>" using floor_mono [OF assms] by simp
  moreover have "round_half_even q \<le> \<lfloor>q\<rfloor> + 1"
    using round_half_even_cases [of q] by auto
  moreover have "\<lfloor>r\<rfloor> \<le> round_half_even r"
    using round_half_even_cases [of r] by auto
  ultimately show ?thesis by linarith
qed

lemma round_half_even_ge: "of_int n \<le> q \<Longrightarrow> n \<le> round_half_even q"
  using round_half_even_mono [of "of_int n" q] by simp

lemma round_half_even_le: "q \<le> of_int n \<Longrightarrow> round_half_even q \<le> n"
  using round_half_even_mono [of q "of_int n"] by simp

lemma round_half_even_error: "\<bar>of_int (round_half_even q) - q\<bar> \<le> 1 / 2"
proof -
  have "of_int \<lfloor>q\<rfloor> \<le> q" "q < of_int \<lfloor>q\<rfloor> + 1" by linarith+
  then show ?thesis unfolding round_half_even_def Let_def by (simp add: abs_if) linarith
qed

subsection \<open>Rounding a magnitude\<close>

lemma round_magnitude_nonneg: "0 \<le> x \<Longrightarrow> 0 \<le> round_magnitude x"
proof -
  assume "0 \<le> x"
  then have "0 \<le> x / ulp x" using ulp_pos [of x] by simp
  then have "0 \<le> round_half_even (x / ulp x)"
    using round_half_even_ge [of 0 "x / ulp x"] by simp
  then show ?thesis using ulp_pos [of x] by (simp add: round_magnitude_def)
qed

lemma round_magnitude_exact:
  assumes "x / ulp x = of_int n"
  shows "round_magnitude x = x"
proof (cases "x = 0")
  case False
  have "round_magnitude x = of_int n * ulp x"
    using False assms by (simp add: round_magnitude_def)
  also have "\<dots> = x" using assms ulp_pos [of x] by (simp add: field_simps)
  finally show ?thesis .
qed (simp add: round_magnitude_def)

lemma round_magnitude_upper:
  assumes "0 < x"
  shows "round_magnitude x \<le> 2 powr (of_int (binade x) + 1)"
proof -
  have "x / ulp x \<le> of_int (2 ^ 53)" using quotient_upper [OF assms] by simp
  then have "round_half_even (x / ulp x) \<le> 2 ^ 53" by (rule round_half_even_le)
  then have "real_of_int (round_half_even (x / ulp x)) \<le> 2 ^ 53"
    by (metis of_int_le_iff of_int_numeral of_int_power)
  then have "round_magnitude x \<le> 2 ^ 53 * ulp x"
    using assms ulp_pos [of x] by (simp add: round_magnitude_def)
  also have "\<dots> = 2 powr (of_int (binade x) + 1)" by (rule ulp_scale53)
  finally show ?thesis .
qed

lemma round_magnitude_lower:
  assumes "2 powr (- 1022) \<le> x"
  shows "2 powr of_int (binade x) \<le> round_magnitude x"
proof -
  have pos: "0 < x" using assms by (rule less_le_trans [rotated]) simp
  have "of_int (2 ^ 52) \<le> x / ulp x" using quotient_lower [OF assms] by simp
  then have "2 ^ 52 \<le> round_half_even (x / ulp x)" by (rule round_half_even_ge)
  then have "2 ^ 52 \<le> real_of_int (round_half_even (x / ulp x))"
    by (metis of_int_le_iff of_int_numeral of_int_power)
  then have "2 ^ 52 * ulp x \<le> round_magnitude x"
    using pos ulp_pos [of x] by (simp add: round_magnitude_def)
  then show ?thesis by (simp only: ulp_scale52)
qed

lemma round_magnitude_mono:
  assumes "0 \<le> x" and "x \<le> y"
  shows "round_magnitude x \<le> round_magnitude y"
proof (cases "x = 0")
  case True
  then show ?thesis using assms round_magnitude_nonneg [of y] by (simp add: round_magnitude_def)
next
  case False
  then have x: "0 < x" and y: "0 < y" using assms by simp_all
  have le: "binade x \<le> binade y" using x assms(2) by (rule binade_mono)
  show ?thesis
  proof (cases "binade x = binade y")
    case True
    then have u: "ulp x = ulp y" by (simp add: ulp_def)
    have "x / ulp y \<le> y / ulp y" using assms(2) ulp_pos [of y] by (simp add: divide_right_mono)
    then have "round_half_even (x / ulp y) \<le> round_half_even (y / ulp y)"
      by (rule round_half_even_mono)
    then have "real_of_int (round_half_even (x / ulp y)) * ulp y
               \<le> real_of_int (round_half_even (y / ulp y)) * ulp y"
      using ulp_pos [of y] by (simp add: mult_right_mono)
    then show ?thesis using x y u by (simp add: round_magnitude_def)
  next
    case False
    then have lt: "binade x + 1 \<le> binade y" using le by simp
    then have "- 1022 < binade y" using binade_ge [of x] by linarith
    then have "\<lfloor>log 2 y\<rfloor> = binade y" using y by (simp add: binade_def max_def split: if_splits)
    then have "of_int (binade y) \<le> log 2 y" by (metis of_int_floor_le)
    then have "2 powr of_int (binade y) \<le> y" using y by (simp add: le_log_iff)
    moreover have "(2::real) powr (- 1022) \<le> 2 powr of_int (binade y)"
    proof (rule powr_mono)
      show "- 1022 \<le> real_of_int (binade y)" using binade_ge [of y] by linarith
    qed simp
    ultimately have normal: "2 powr (- 1022) \<le> y" by linarith
    have "round_magnitude x \<le> 2 powr (of_int (binade x) + 1)" using x by (rule round_magnitude_upper)
    also have "\<dots> \<le> 2 powr of_int (binade y)"
    proof -
      have "real_of_int (binade x) + 1 \<le> real_of_int (binade y)" using lt by linarith
      then show ?thesis by simp
    qed
    also have "\<dots> \<le> round_magnitude y" using normal by (rule round_magnitude_lower)
    finally show ?thesis .
  qed
qed

lemma round_magnitude_error:
  "\<bar>round_magnitude x - x\<bar> \<le> ulp x / 2"
proof (cases "x = 0")
  case False
  have "round_magnitude x - x = (of_int (round_half_even (x / ulp x)) - x / ulp x) * ulp x"
    using False ulp_pos [of x] by (simp add: round_magnitude_def left_diff_distrib)
  then have "\<bar>round_magnitude x - x\<bar> = \<bar>of_int (round_half_even (x / ulp x)) - x / ulp x\<bar> * ulp x"
    using ulp_pos [of x] by (simp add: abs_mult)
  also have "\<dots> \<le> 1 / 2 * ulp x"
    using round_half_even_error [of "x / ulp x"] ulp_pos [of x] by (intro mult_right_mono) simp_all
  finally show ?thesis by simp
qed (use ulp_pos [of 0] in \<open>simp add: round_magnitude_def\<close>)

lemma binade_normal:
  assumes "0 < x" and "- 1022 < binade x"
  shows "2 powr of_int (binade x) \<le> x"
proof -
  have "\<lfloor>log 2 x\<rfloor> = binade x"
    using assms by (simp add: binade_def max_def split: if_splits)
  then have "of_int (binade x) \<le> log 2 x" by (metis of_int_floor_le)
  then show ?thesis using assms(1) by (simp add: le_log_iff)
qed

lemma round_magnitude_dyadic:
  assumes "0 < n" and "n \<le> 2 ^ 53" and "- 1074 \<le> k"
  shows "round_magnitude (of_int n * 2 powr of_int k) = of_int n * 2 powr of_int k"
proof -
  define x where "x = real_of_int n * 2 powr of_int k"
  define e where "e = binade x"
  have x: "0 < x" unfolding x_def using assms(1) by simp
  have n53: "real_of_int n \<le> 2 ^ 53"
    using assms(2) by (metis of_int_le_iff of_int_numeral of_int_power)
  have xle: "x \<le> 2 powr (of_int k + 53)"
  proof -
    have "x \<le> 2 ^ 53 * 2 powr of_int k" unfolding x_def using n53 by (simp add: mult_right_mono)
    also have "\<dots> = 2 powr 53 * 2 powr of_int k" by simp
    also have "\<dots> = 2 powr (53 + of_int k)" by (rule powr_add [symmetric])
    finally show ?thesis by (simp add: add.commute)
  qed
  have "2 powr of_int k / ulp x = 2 powr (of_int k - (of_int e - 52))"
    unfolding ulp_def e_def [symmetric] by (rule powr_diff [symmetric])
  then have q: "x / ulp x = of_int n * 2 powr (of_int k - (of_int e - 52))"
    unfolding x_def by (simp only: times_divide_eq_right [symmetric])
  have "\<exists>m. x / ulp x = of_int m"
  proof (cases "e \<le> k + 52")
    case True
    define j where "j = k + 52 - e"
    have j: "0 \<le> j" using True by (simp add: j_def)
    have "of_int k - (of_int e - 52) = real_of_int j" by (simp add: j_def)
    then have "x / ulp x = of_int n * 2 powr real_of_int j" using q by simp
    also have "\<dots> = of_int n * 2 ^ nat j" using j by (simp add: powr_real_of_int)
    also have "\<dots> = of_int (n * 2 ^ nat j)" by simp
    finally show ?thesis by blast
  next
    case False
    then have e: "k + 53 \<le> e" by simp
    then have "- 1022 < binade x" using assms(3) by (simp add: e_def)
    then have "2 powr of_int e \<le> x" unfolding e_def using x by (intro binade_normal)
    moreover have "(2::real) powr (of_int k + 53) \<le> 2 powr of_int e"
    proof (rule powr_mono)
      show "real_of_int k + 53 \<le> real_of_int e" using e by linarith
    qed simp
    ultimately have eq: "x = 2 powr of_int e" using xle by linarith
    have "ulp x = 2 powr (of_int e - 52)" by (simp only: ulp_def e_def)
    then have "x / ulp x = 2 powr of_int e / 2 powr (of_int e - 52)"
      using eq by (simp only:)
    also have "\<dots> = 2 powr (of_int e - (of_int e - 52))" by (rule powr_diff [symmetric])
    also have "\<dots> = of_int (2 ^ 52)" by simp
    finally show ?thesis by blast
  qed
  then obtain m where "x / ulp x = of_int m" by blast
  then have "round_magnitude x = x" by (rule round_magnitude_exact)
  then show ?thesis by (simp add: x_def)
qed

lemma round_magnitude_of_int:
  assumes "0 \<le> n" and "n \<le> 2 ^ 53"
  shows "round_magnitude (of_int n) = of_int n"
proof (cases "n = 0")
  case False
  then show ?thesis using assms round_magnitude_dyadic [of n 0] by simp
qed (simp add: round_magnitude_def)

lemma round_magnitude_power2: "- 1074 \<le> k \<Longrightarrow> round_magnitude (2 powr of_int k) = 2 powr of_int k"
  using round_magnitude_dyadic [of 1 k] by simp

lemma round_magnitude_overflow:
  assumes "2 ^ 1024 \<le> x"
  shows "2 ^ 1024 \<le> round_magnitude x"
proof -
  have "round_magnitude (2 powr of_int 1024) \<le> round_magnitude x"
    using assms by (intro round_magnitude_mono) simp_all
  then show ?thesis using round_magnitude_power2 [of 1024] by simp
qed

lemma round_magnitude_le:
  assumes "0 \<le> x" and "x \<le> y" and "round_magnitude y = y"
  shows "round_magnitude x \<le> y"
  using round_magnitude_mono [OF assms(1,2)] assms(3) by simp

lemma round_magnitude_ge:
  assumes "0 \<le> y" and "y \<le> x" and "round_magnitude y = y"
  shows "y \<le> round_magnitude x"
  using round_magnitude_mono [OF assms(1,2)] assms(3) by simp

lemma round_magnitude_pos:
  assumes "2 powr (- 1074) \<le> x"
  shows "0 < round_magnitude x"
proof -
  have "round_magnitude (2 powr of_int (- 1074)) \<le> round_magnitude x"
    using assms by (intro round_magnitude_mono) simp_all
  moreover have "round_magnitude (2 powr of_int (- 1074)) = 2 powr of_int (- 1074)"
    by (rule round_magnitude_power2) simp
  moreover have "(0::real) < 2 powr of_int (- 1074)" by simp
  ultimately show ?thesis by linarith
qed

subsection \<open>The order of the numbers\<close>

lemma js_le_Fin [simp]: "js_le (Fin x) (Fin y) \<longleftrightarrow> x \<le> y"
  by (simp add: js_le_def)

lemma js_lt_Fin [simp]: "js_lt (Fin x) (Fin y) \<longleftrightarrow> x < y"
  by (simp add: js_lt_def)

lemma js_le_PosInf [simp]: "js_le a PosInf \<longleftrightarrow> a \<noteq> NaN"
  by (cases a) (simp_all add: js_le_def)

lemma js_le_NaN [simp]: "\<not> js_le a NaN" "\<not> js_le NaN a"
  by (cases a; simp add: js_le_def)+

lemma js_lt_NaN [simp]: "\<not> js_lt a NaN" "\<not> js_lt NaN a"
  by (cases a; simp add: js_lt_def)+

lemma js_le_PosInf_Fin [simp]: "\<not> js_le PosInf (Fin x)"
  by (simp add: js_le_def)

lemma js_le_refl: "a \<noteq> NaN \<Longrightarrow> js_le a a"
  by (cases a) (simp_all add: js_le_def)


lemma js_lt_le_trans: "js_lt a b \<Longrightarrow> js_le b c \<Longrightarrow> js_lt a c"
  by (cases a; cases b; cases c) (auto simp add: js_le_def js_lt_def)

lemma js_le_lt_trans: "js_le a b \<Longrightarrow> js_lt b c \<Longrightarrow> js_lt a c"
  by (cases a; cases b; cases c) (auto simp add: js_le_def js_lt_def)

lemma js_not_le: "a \<noteq> NaN \<Longrightarrow> b \<noteq> NaN \<Longrightarrow> \<not> js_le a b \<longleftrightarrow> js_lt b a"
  by (cases a; cases b) (auto simp add: js_le_def js_lt_def)

lemma js_lt_imp_le: "js_lt a b \<Longrightarrow> js_le a b"
  by (cases a; cases b) (auto simp add: js_le_def js_lt_def)

subsection \<open>Rounding to a number\<close>

lemma js_round_nonneg:
  "0 \<le> x \<Longrightarrow> js_round_to False x
     = (if 2 ^ 1024 \<le> round_magnitude x then PosInf else Fin (round_magnitude x))"
  by (simp add: js_round_to_def Let_def)

lemma js_round_eq_to: "0 \<le> x \<Longrightarrow> js_round x = js_round_to False x"
  by (simp add: js_round_def)

lemma js_round_negative:
  "x < 0 \<Longrightarrow> js_round x
     = (if 2 ^ 1024 \<le> round_magnitude (- x) then NegInf
        else if round_magnitude (- x) = 0 then NegZero
        else Fin (- round_magnitude (- x)))"
  by (simp add: js_round_def js_round_to_def Let_def abs_if)

lemma js_round_mono:
  assumes "x \<le> y"
  shows "js_le (js_round x) (js_round y)"
proof -
  consider "0 \<le> x" | "x < 0" "0 \<le> y" | "y < 0" using assms by linarith
  then show ?thesis
  proof cases
    case 1
    then have y: "0 \<le> y" using assms by simp
    have "round_magnitude x \<le> round_magnitude y" using 1 assms by (rule round_magnitude_mono)
    then show ?thesis using 1 y by (simp add: js_round_eq_to js_round_nonneg)
  next
    case 2
    have "0 \<le> round_magnitude (- x)" "0 \<le> round_magnitude y"
      using 2 by (simp_all add: round_magnitude_nonneg)
    then show ?thesis using 2
      by (simp add: js_round_negative js_round_eq_to js_round_nonneg js_le_def)
  next
    case 3
    then have x: "x < 0" using assms by simp
    have "round_magnitude (- y) \<le> round_magnitude (- x)"
      using 3 assms by (intro round_magnitude_mono) simp_all
    moreover have "0 \<le> round_magnitude (- x)" "0 \<le> round_magnitude (- y)"
      using 3 x by (simp_all add: round_magnitude_nonneg)
    ultimately show ?thesis using 3 x
      by (auto simp add: js_round_negative js_le_def)
  qed
qed

lemma js_round_to_mono:
  assumes "0 \<le> x" and "x \<le> y"
  shows "js_le (js_round_to False x) (js_round_to False y)"
  using js_round_mono [OF assms(2)] assms by (simp add: js_round_eq_to)

lemma js_round_of_int:
  assumes "\<bar>n\<bar> \<le> 2 ^ 53"
  shows "js_round (of_int n) = Fin (of_int n)"
proof (cases "0 \<le> n")
  case True
  then have "round_magnitude (of_int n) = of_int n" using assms by (intro round_magnitude_of_int) simp_all
  moreover have "real_of_int n \<le> 2 ^ 53"
    using assms True by (metis abs_of_nonneg of_int_le_iff of_int_numeral of_int_power)
  ultimately show ?thesis using True by (simp add: js_round_eq_to js_round_nonneg)
next
  case False
  then have n: "n < 0" by simp
  have rm: "round_magnitude (- of_int n) = - of_int n"
    using round_magnitude_of_int [of "- n"] assms n by simp
  have "real_of_int (- n) \<le> 2 ^ 53"
    using assms n by (metis abs_of_neg of_int_le_iff of_int_numeral of_int_power)
  then show ?thesis using n rm by (simp add: js_round_negative)
qed

lemma js_round_to_of_int:
  assumes "0 \<le> n" and "n \<le> 2 ^ 53"
  shows "js_round_to False (of_int n) = Fin (of_int n)"
  using js_round_of_int [of n] assms by (simp add: js_round_eq_to)

lemma is_double_of_int: "\<bar>n\<bar> \<le> 2 ^ 53 \<Longrightarrow> is_double (of_int n)"
  by (simp add: is_double_def js_round_of_int)

section \<open>Exact integer arithmetic below \<open>2^53\<close>\<close>

lemma js_add_int:
  assumes "\<bar>m + n\<bar> \<le> 2 ^ 53"
  shows "js_add (Fin (of_int m)) (Fin (of_int n)) = Fin (of_int (m + n))"
proof (cases "m + n = 0")
  case True
  then have "real_of_int m + real_of_int n = 0" by (metis of_int_add of_int_0)
  moreover have "\<not> (m < 0 \<and> n < 0)" using True by linarith
  ultimately show ?thesis using True by (simp add: js_add_def js_signed_zero_def)
next
  case False
  then have "real_of_int m + real_of_int n \<noteq> 0" by (metis of_int_add of_int_eq_0_iff)
  moreover have "js_round (real_of_int (m + n)) = Fin (of_int (m + n))"
    using assms by (rule js_round_of_int)
  ultimately show ?thesis by (simp add: js_add_def)
qed

lemma js_add_one:
  assumes "0 \<le> m" and "m < 2 ^ 53"
  shows "js_add (Fin (of_int m)) (Fin 1) = Fin (of_int (m + 1))"
  using js_add_int [of m 1] assms by simp

lemma js_sub_one:
  assumes "0 \<le> m" and "m \<le> 2 ^ 53"
  shows "js_sub (Fin (of_int m)) (Fin 1) = Fin (of_int (m - 1))"
  using js_add_int [of m "- 1"] assms by (simp add: js_sub_def)

lemma is_double_integer:
  assumes "is_double h" and "2 ^ 52 \<le> h" and "h < 2 ^ 53"
  shows "\<exists>g. h = of_int g"
proof -
  have pos: "0 < h" using assms(2) by (rule less_le_trans [rotated]) simp
  have "binade h = 52"
  proof (rule binade_eqI)
    show "2 powr real_of_int 52 \<le> h" using assms(2) by simp
    show "h < 2 powr (real_of_int 52 + 1)" using assms(3) by simp
  qed simp
  then have u: "ulp h = 1" by (simp add: ulp_def)
  have "js_round_to False h = Fin h" using assms(1) pos by (simp add: is_double_def js_round_eq_to)
  then have "round_magnitude h = h"
    using pos by (simp add: js_round_nonneg split: if_splits)
  then have "h = of_int (round_half_even (h / ulp h)) * ulp h"
    using pos by (simp add: round_magnitude_def)
  then show ?thesis using u by auto
qed

lemma round_magnitude_half:
  assumes "0 < n" and "n \<le> 2 ^ 53"
  shows "round_magnitude (of_int n / 2) = of_int n / 2"
proof -
  have "round_magnitude (of_int n * 2 powr of_int (- 1)) = of_int n * 2 powr of_int (- 1)"
    using assms by (intro round_magnitude_dyadic) simp_all
  then show ?thesis by (simp add: powr_minus field_simps)
qed

lemma round_magnitude_twice:
  assumes "0 < n" and "n \<le> 2 ^ 53"
  shows "round_magnitude (2 * of_int n) = 2 * of_int n"
proof -
  have "round_magnitude (of_int n * 2 powr of_int 1) = of_int n * 2 powr of_int 1"
    using assms by (intro round_magnitude_dyadic) simp_all
  then show ?thesis by (simp add: mult.commute)
qed

text \<open>
  The midpoint \<open>Math.floor((low + high) / 2)\<close> of an integer \<open>low\<close> and a double \<open>high\<close>
  below \<open>2^53\<close> is an integer between them, whatever the sum rounds to.
\<close>

lemma midpoint:
  assumes "1 \<le> l" and "of_int l \<le> h" and "h < 2 ^ 53" and "is_double h"
  shows "\<exists>m. js_floor (js_div (js_add (Fin (of_int l)) (Fin h)) (Fin 2)) = Fin (of_int m)
           \<and> l \<le> m \<and> of_int m \<le> h"
proof -
  define g where "g = \<lfloor>h\<rfloor>"
  define s where "s = real_of_int l + h"
  define t where "t = round_magnitude s"
  define r where "r = round_magnitude (t / 2)"
  have lg: "l \<le> g" unfolding g_def using assms(2) by (simp add: le_floor_iff)
  have g1: "1 \<le> g" using assms(1) lg by simp
  have gh: "of_int g \<le> h" unfolding g_def by simp
  have g53r: "real_of_int g < 2 ^ 53" using gh assms(3) by linarith
  then have g53: "g < 2 ^ 53" by (metis of_int_less_iff of_int_numeral of_int_power)
  have l53: "l \<le> 2 ^ 53" using lg g53 by linarith
  have l1: "1 \<le> real_of_int l" using assms(1) by simp
  have s: "2 * real_of_int l \<le> s" "0 < s" unfolding s_def using assms(2) l1 by linarith+
  have tl: "2 * real_of_int l \<le> t"
    unfolding t_def using s l1
    by (intro round_magnitude_ge round_magnitude_twice) (use assms(1) l53 in simp_all)
  have tu': "t \<le> 2 * real_of_int g \<or> (t \<le> real_of_int (2 * g + 1) \<and> 2 * g + 1 \<le> 2 ^ 53)"
  proof (cases "2 ^ 52 \<le> h")
    case True
    then obtain g' where "h = of_int g'" using is_double_integer [OF assms(4) _ assms(3)] by blast
    then have "h = of_int g" by (simp add: g_def)
    then have "s \<le> 2 * real_of_int g" unfolding s_def using lg by simp
    moreover have "round_magnitude (2 * real_of_int g) = 2 * real_of_int g"
      using g1 g53 by (intro round_magnitude_twice) simp_all
    ultimately have "t \<le> 2 * real_of_int g"
      unfolding t_def using s(2) by (intro round_magnitude_le) simp_all
    then show ?thesis by blast
  next
    case False
    then have "real_of_int g < 2 ^ 52" using gh by linarith
    then have "g < 2 ^ 52" by (metis of_int_less_iff of_int_numeral of_int_power)
    then have small: "2 * g + 1 \<le> 2 ^ 53" by simp
    have "h < real_of_int g + 1" unfolding g_def by linarith
    then have "s \<le> real_of_int (2 * g + 1)" unfolding s_def using lg by simp
    moreover have "round_magnitude (real_of_int (2 * g + 1)) = real_of_int (2 * g + 1)"
      using g1 small by (intro round_magnitude_of_int) simp_all
    ultimately have "t \<le> real_of_int (2 * g + 1)"
      unfolding t_def using s(2) by (intro round_magnitude_le) simp_all
    then show ?thesis using small by blast
  qed
  then have tu: "t \<le> 2 * real_of_int g + 1" by auto
  have t54: "t < 2 ^ 1024"
  proof -
    have "t \<le> 2 * real_of_int g + 1" by (rule tu)
    also have "\<dots> \<le> 2 * 2 ^ 53 + 1" using g53r by linarith
    also have "\<dots> < (2::real) ^ 1024" by simp
    finally show ?thesis .
  qed
  have tpos: "0 < t" using tl l1 by linarith
  have add: "js_add (Fin (of_int l)) (Fin h) = Fin t"
    using s(2) t54 tpos by (simp add: js_add_def s_def [symmetric] js_round_eq_to js_round_nonneg t_def [symmetric])
  have rl: "real_of_int l \<le> r"
    unfolding r_def using tl l1
    by (intro round_magnitude_ge round_magnitude_of_int) (use assms(1) l53 in simp_all)
  have ru: "r \<le> real_of_int g + 1 / 2"
    using tu'
  proof
    assume "t \<le> 2 * real_of_int g"
    then have "t / 2 \<le> real_of_int g" by simp
    moreover have "round_magnitude (real_of_int g) = real_of_int g"
      using g1 g53 by (intro round_magnitude_of_int) simp_all
    ultimately have "r \<le> real_of_int g"
      unfolding r_def using tpos by (intro round_magnitude_le) simp_all
    then show ?thesis by simp
  next
    assume a: "t \<le> real_of_int (2 * g + 1) \<and> 2 * g + 1 \<le> 2 ^ 53"
    then have "t / 2 \<le> real_of_int (2 * g + 1) / 2" by simp
    moreover have "round_magnitude (real_of_int (2 * g + 1) / 2) = real_of_int (2 * g + 1) / 2"
      using g1 a by (intro round_magnitude_half) simp_all
    ultimately have "r \<le> real_of_int (2 * g + 1) / 2"
      unfolding r_def using tpos by (intro round_magnitude_le) simp_all
    then show ?thesis by (simp add: field_simps)
  qed
  have r1024: "r < 2 ^ 1024"
  proof -
    have "r \<le> real_of_int g + 1 / 2" by (rule ru)
    also have "\<dots> \<le> 2 ^ 53 + 1 / 2" using g53r by linarith
    also have "\<dots> < (2::real) ^ 1024" by simp
    finally show ?thesis .
  qed
  have rpos: "0 < r" using rl l1 by linarith
  have div: "js_div (Fin t) (Fin 2) = Fin r"
    using tpos r1024 rpos by (simp add: js_div_def js_round_nonneg r_def [symmetric])
  have "l \<le> \<lfloor>r\<rfloor>" using rl by (simp add: le_floor_iff)
  moreover have "\<lfloor>r\<rfloor> \<le> g"
  proof -
    have "r < real_of_int (g + 1)" using ru by simp
    then have "\<lfloor>r\<rfloor> < g + 1" by (simp only: floor_less_iff)
    then show ?thesis by simp
  qed
  moreover have "real_of_int \<lfloor>r\<rfloor> \<le> h"
  proof -
    have "real_of_int \<lfloor>r\<rfloor> \<le> real_of_int g" using \<open>\<lfloor>r\<rfloor> \<le> g\<close> by (simp only: of_int_le_iff)
    then show ?thesis using gh by linarith
  qed
  ultimately show ?thesis using add div by (intro exI [of _ "\<lfloor>r\<rfloor>"]) simp
qed

section \<open>The search loop\<close>

lemma calculateLevel_loop_exit:
  "\<not> js_le low high
   \<Longrightarrow> calculateLevel_loop totalXP options low high currentLevel = Some currentLevel"
  by (subst calculateLevel_loop.simps) simp

lemma calculateLevel_loop_right:
  assumes "js_le low high"
    and "js_floor (js_div (js_add low high) (Fin 2)) = mid"
    and "js_le (getRequiredXP mid options) totalXP"
  shows "calculateLevel_loop totalXP options low high currentLevel
         = calculateLevel_loop totalXP options (js_add mid (Fin 1)) high mid"
  using assms by (subst calculateLevel_loop.simps) (simp add: Let_def)

lemma calculateLevel_loop_left:
  assumes "js_le low high"
    and "js_floor (js_div (js_add low high) (Fin 2)) = mid"
    and "\<not> js_le (getRequiredXP mid options) totalXP"
  shows "calculateLevel_loop totalXP options low high currentLevel
         = calculateLevel_loop totalXP options low (js_sub mid (Fin 1)) currentLevel"
  using assms by (subst calculateLevel_loop.simps) (simp add: Let_def)

lemma below_2_53:
  assumes "real_of_int m \<le> h" and "h < 2 ^ 53"
  shows "m < 2 ^ 53"
proof -
  have "real_of_int m < 2 ^ 53" using assms by linarith
  then show ?thesis by (metis of_int_less_iff of_int_numeral of_int_power)
qed

text \<open>
  With \<open>high\<close> below \<open>2^53\<close> the loop returns, and it returns the initial \<open>currentLevel\<close>
  or an integer level whose requirement \<open>totalXP\<close> meets.
\<close>

lemma calculateLevel_loop_returns:
  assumes "1 \<le> l" and "h < 2 ^ 53" and "is_double h" and "1 \<le> c"
  shows "\<exists>n. calculateLevel_loop totalXP options (Fin (of_int l)) (Fin h) (Fin (of_int c))
               = Some (Fin (of_int n)) \<and> 1 \<le> n
           \<and> (n = c \<or> js_le (getRequiredXP (Fin (of_int n)) options) totalXP)"
  using assms
proof (induction "nat (\<lfloor>h\<rfloor> - l + 1)" arbitrary: l h c rule: less_induct)
  case less
  show ?case
  proof (cases "of_int l \<le> h")
    case False
    then show ?thesis using less.prems(4)
      by (intro exI [of _ c]) (simp add: calculateLevel_loop_exit)
  next
    case True
    obtain m where m: "js_floor (js_div (js_add (Fin (of_int l)) (Fin h)) (Fin 2)) = Fin (of_int m)"
        "l \<le> m" "of_int m \<le> h"
      using midpoint [OF less.prems(1) True less.prems(2,3)] by blast
    have m53: "m < 2 ^ 53" using m(3) less.prems(2) by (rule below_2_53)
    have m1: "1 \<le> m" using less.prems(1) m(2) by simp
    have mf: "m \<le> \<lfloor>h\<rfloor>" using m(3) by (simp add: le_floor_iff)
    have le: "js_le (Fin (of_int l)) (Fin h)" using True by simp
    show ?thesis
    proof (cases "js_le (getRequiredXP (Fin (of_int m)) options) totalXP")
      case met: True
      have step: "calculateLevel_loop totalXP options (Fin (of_int l)) (Fin h) (Fin (of_int c))
          = calculateLevel_loop totalXP options (Fin (of_int (m + 1))) (Fin h) (Fin (of_int m))"
        using calculateLevel_loop_right [OF le m(1) met] m1 m53 by (simp add: js_add_one)
      have "nat (\<lfloor>h\<rfloor> - (m + 1) + 1) < nat (\<lfloor>h\<rfloor> - l + 1)" using m(2) mf by simp
      then obtain n where "calculateLevel_loop totalXP options (Fin (of_int (m + 1))) (Fin h)
            (Fin (of_int m)) = Some (Fin (of_int n))" "1 \<le> n"
          "n = m \<or> js_le (getRequiredXP (Fin (of_int n)) options) totalXP"
        using less.hyps [of h "m + 1" m] m1 less.prems(2,3) by auto
      then show ?thesis using step met by auto
    next
      case unmet: False
      have step: "calculateLevel_loop totalXP options (Fin (of_int l)) (Fin h) (Fin (of_int c))
          = calculateLevel_loop totalXP options (Fin (of_int l)) (Fin (of_int (m - 1)))
              (Fin (of_int c))"
        using calculateLevel_loop_left [OF le m(1) unmet] m1 m53 by (simp add: js_sub_one)
      have "nat (\<lfloor>real_of_int (m - 1)\<rfloor> - l + 1) < nat (\<lfloor>h\<rfloor> - l + 1)" using m(2) mf by simp
      moreover have "real_of_int (m - 1) < 2 ^ 53" using m(3) less.prems(2) by simp
      moreover have "is_double (real_of_int (m - 1))"
        using m1 m53 by (intro is_double_of_int) simp
      ultimately obtain n where "calculateLevel_loop totalXP options (Fin (of_int l))
            (Fin (of_int (m - 1))) (Fin (of_int c)) = Some (Fin (of_int n))" "1 \<le> n"
          "n = c \<or> js_le (getRequiredXP (Fin (of_int n)) options) totalXP"
        using less.hyps [of "real_of_int (m - 1)" l c] less.prems(1,4) by auto
      then show ?thesis using step by auto
    qed
  qed
qed


section \<open>Required XP\<close>

lemma js_gt_Fin [simp]: "js_gt (Fin x) (Fin y) \<longleftrightarrow> y < x"
  by (simp add: js_gt_def)




lemma getRequiredXP_above:
  assumes "\<not> js_lt level (Fin 1)" and "js_gt level (cfg_maxLevel options)"
  shows "getRequiredXP level options
         = js_floor (js_mul (cfg_baseXP options)
                            (js_pow (cfg_maxLevel options) (cfg_exponent options)))"
  using assms by (simp add: getRequiredXP_def Let_def)

lemma getRequiredXP_clamped:
  assumes "\<not> js_lt level (Fin 1)" and "js_gt level (cfg_maxLevel options)"
    and "\<not> js_lt (cfg_maxLevel options) (Fin 1)"
  shows "getRequiredXP level options = getRequiredXP (cfg_maxLevel options) options"
proof -
  have "\<not> js_gt (cfg_maxLevel options) (cfg_maxLevel options)"
    by (cases "cfg_maxLevel options") (simp_all add: js_gt_def js_lt_def)
  then show ?thesis using assms by (simp add: getRequiredXP_def Let_def)
qed




lemma js_floor_mono: "js_le a b \<Longrightarrow> js_le (js_floor a) (js_floor b)"
proof (cases a; cases b)
  fix x y assume "js_le a b" "a = Fin x" "b = Fin y"
  then show ?thesis by (simp add: floor_mono)
next
  fix x assume a: "js_le a b" "a = Fin x" "b = NegZero"
  then have "x \<le> 0" by (simp add: js_le_def)
  then have "\<lfloor>x\<rfloor> \<le> 0" by (simp add: floor_le_iff)
  then show ?thesis using a by (simp add: js_le_def)
next
  fix y assume a: "js_le a b" "a = NegZero" "b = Fin y"
  then have "0 \<le> y" by (simp add: js_le_def)
  then show ?thesis using a by (simp add: js_le_def)
qed (simp_all add: js_le_def)









section \<open>A search that never returns\<close>

lemma round_magnitude_tie: "round_magnitude (2 ^ 53 + 1) = 2 ^ 53"
proof -
  have b: "binade (2 ^ 53 + 1) = 53"
    by (rule binade_eqI) simp_all
  have u: "ulp (2 ^ 53 + 1) = 2" unfolding ulp_def b by simp
  have q: "(2 ^ 53 + 1) / ulp (2 ^ 53 + 1) = real_of_int (2 ^ 52) + 1 / 2"
    unfolding u by simp
  have f: "\<lfloor>real_of_int (2 ^ 52) + 1 / 2\<rfloor> = 2 ^ 52"
    by (rule floor_unique) simp_all
  have "round_half_even (real_of_int (2 ^ 52) + 1 / 2) = 2 ^ 52"
    unfolding round_half_even_def f Let_def by simp
  then show ?thesis unfolding round_magnitude_def q u by simp
qed

lemma hang_mid:
  assumes "1 \<le> l" and "l \<le> 2 ^ 53"
  shows "\<exists>m. js_floor (js_div (js_add (Fin l) (Fin (2 ^ 53))) (Fin 2)) = Fin m
            \<and> 1 \<le> m \<and> m \<le> 2 ^ 53"
proof -
  define t where "t = round_magnitude (l + 2 ^ 53)"
  have r53: "round_magnitude (2 ^ 53) = 2 ^ 53"
    using round_magnitude_power2 [of 53] by simp
  have r54: "round_magnitude (2 ^ 54) = 2 ^ 54"
    using round_magnitude_power2 [of 54] by simp
  have r52: "round_magnitude (2 ^ 52) = 2 ^ 52"
    using round_magnitude_power2 [of 52] by simp
  have t1: "2 ^ 53 \<le> t" unfolding t_def using assms r53 by (intro round_magnitude_ge) simp_all
  have t2: "t \<le> 2 ^ 54" unfolding t_def using assms r54 by (intro round_magnitude_le) simp_all
  have "l + 2 ^ 53 \<noteq> 0" "0 \<le> l + 2 ^ 53" using assms by simp_all
  then have add: "js_add (Fin l) (Fin (2 ^ 53)) = Fin t"
    using t2 by (simp add: js_add_def js_round_eq_to js_round_nonneg t_def)
  define d where "d = round_magnitude (t / 2)"
  have d1: "2 ^ 52 \<le> d" unfolding d_def using t1 r52 by (intro round_magnitude_ge) simp_all
  have d2: "d \<le> 2 ^ 53" unfolding d_def using t1 t2 r53 by (intro round_magnitude_le) simp_all
  have "0 \<le> t / 2" using t1 by simp
  then have div: "js_div (Fin t) (Fin 2) = Fin d"
    using d2 t1 by (simp add: js_div_def js_round_nonneg d_def)
  have "real_of_int (2 ^ 52) \<le> d" using d1 by simp
  then have "2 ^ 52 \<le> \<lfloor>d\<rfloor>" by (simp only: le_floor_iff)
  then have "(2::real) ^ 52 \<le> of_int \<lfloor>d\<rfloor>" by (metis of_int_le_iff of_int_numeral of_int_power)
  then have f1: "1 \<le> real_of_int \<lfloor>d\<rfloor>" by simp
  have f2: "real_of_int \<lfloor>d\<rfloor> \<le> 2 ^ 53" using d2 by linarith
  show ?thesis unfolding add div using f1 f2 by simp
qed

lemma hang_next:
  assumes "1 \<le> m" and "m \<le> 2 ^ 53"
  shows "\<exists>l. js_add (Fin m) (Fin 1) = Fin l \<and> 1 \<le> l \<and> l \<le> 2 ^ 53"
proof -
  have r1: "round_magnitude 1 = 1" using round_magnitude_power2 [of 0] by simp
  have "round_magnitude (m + 1) \<le> round_magnitude (2 ^ 53 + 1)"
    using assms by (intro round_magnitude_mono) simp_all
  then have u: "round_magnitude (m + 1) \<le> 2 ^ 53" by (simp only: round_magnitude_tie)
  have l: "1 \<le> round_magnitude (m + 1)" using assms r1 by (intro round_magnitude_ge) simp_all
  have "m + 1 \<noteq> 0" "0 \<le> m + 1" using assms by simp_all
  then have "js_add (Fin m) (Fin 1) = Fin (round_magnitude (m + 1))"
    using u by (simp add: js_add_def js_round_eq_to js_round_nonneg)
  then show ?thesis using u l by simp
qed

lemma hang_requirement:
  assumes "1 \<le> m" and "m \<le> 2 ^ 53"
  shows "getRequiredXP (Fin m) \<lparr>baseXP = None, exponent = Some (Fin 0), maxLevel = Some (Fin (2 ^ 53))\<rparr>
         = Fin 100"
proof -
  have "js_round_to False (real_of_int 100) = Fin (real_of_int 100)"
    by (rule js_round_to_of_int) simp_all
  then show ?thesis
    using assms
    by (simp add: getRequiredXP_def merge_options_def DEFAULT_OPTIONS_def Let_def
        js_pow_def js_is_zero_def js_mul_def)
qed

lemma calculateLevel_loop_hangs:
  assumes "1 \<le> l" and "l \<le> 2 ^ 53"
  shows "calculateLevel_loop (Fin 100)
           \<lparr>baseXP = None, exponent = Some (Fin 0), maxLevel = Some (Fin (2 ^ 53))\<rparr>
           (Fin l) (Fin (2 ^ 53)) currentLevel = None"
proof (rule ccontr)
  let ?o = "\<lparr>baseXP = None, exponent = Some (Fin 0), maxLevel = Some (Fin (2 ^ 53))\<rparr>"
  assume "calculateLevel_loop (Fin 100) ?o (Fin l) (Fin (2 ^ 53)) currentLevel \<noteq> None"
  then obtain y where y: "calculateLevel_loop (Fin 100) ?o (Fin l) (Fin (2 ^ 53)) currentLevel = Some y"
    by auto
  have "(Fin 100 = Fin 100 \<and> ?o = ?o \<and> Fin (2 ^ 53) = Fin (2 ^ 53)
          \<and> (\<exists>l'. Fin l = Fin l' \<and> 1 \<le> l' \<and> l' \<le> (2::real) ^ 53)) \<longrightarrow> False"
  proof (rule calculateLevel_loop.raw_induct
      [where P = "\<lambda>totalXP options low high cur y.
          (totalXP = Fin 100 \<and> options = ?o \<and> high = Fin (2 ^ 53)
            \<and> (\<exists>l'. low = Fin l' \<and> 1 \<le> l' \<and> l' \<le> (2::real) ^ 53)) \<longrightarrow> False", OF _ y])
    fix f :: "jsnum \<Rightarrow> LevelCalculationOptions \<Rightarrow> jsnum \<Rightarrow> jsnum \<Rightarrow> jsnum \<Rightarrow> jsnum option"
      and totalXP options low high cur z
    assume IH: "\<And>totalXP options low high cur z. f totalXP options low high cur = Some z \<Longrightarrow>
        (totalXP = Fin 100 \<and> options = ?o \<and> high = Fin (2 ^ 53)
            \<and> (\<exists>l'. low = Fin l' \<and> 1 \<le> l' \<and> l' \<le> (2::real) ^ 53)) \<longrightarrow> False"
    assume step: "(if js_le low high
        then let mid = js_floor (js_div (js_add low high) (Fin 2));
                 requiredXP = getRequiredXP mid options
             in if js_le requiredXP totalXP
                then f totalXP options (js_add mid (Fin 1)) high mid
                else f totalXP options low (js_sub mid (Fin 1)) cur
        else Some cur) = Some z"
    show "(totalXP = Fin 100 \<and> options = ?o \<and> high = Fin (2 ^ 53)
            \<and> (\<exists>l'. low = Fin l' \<and> 1 \<le> l' \<and> l' \<le> (2::real) ^ 53)) \<longrightarrow> False"
    proof
      assume inv: "totalXP = Fin 100 \<and> options = ?o \<and> high = Fin (2 ^ 53)
            \<and> (\<exists>l'. low = Fin l' \<and> 1 \<le> l' \<and> l' \<le> (2::real) ^ 53)"
      then obtain l' where l': "low = Fin l'" "1 \<le> l'" "l' \<le> 2 ^ 53" by blast
      obtain m where m: "js_floor (js_div (js_add (Fin l') (Fin (2 ^ 53))) (Fin 2)) = Fin m"
        "1 \<le> m" "m \<le> 2 ^ 53"
        using hang_mid [OF l'(2,3)] by blast
      obtain n where n: "js_add (Fin m) (Fin 1) = Fin n" "1 \<le> n" "n \<le> 2 ^ 53"
        using hang_next [OF m(2,3)] by blast
      have req: "getRequiredXP (Fin m) ?o = Fin 100" using m(2,3) by (rule hang_requirement)
      have "f (Fin 100) ?o (Fin n) (Fin (2 ^ 53)) (Fin m) = Some z"
        using step inv l' m(1) n(1) req by (simp add: Let_def)
      then show False using IH n(2,3) by blast
    qed
  qed
  then show False using assms by blast
qed

section \<open>Rounding of numerals\<close>











lemma is_double_one: "is_double 1"
  using is_double_of_int [of 1] by simp

lemma is_double_zero: "is_double 0"
  using is_double_of_int [of 0] by simp

section \<open>Rank lookup\<close>

text \<open>
  C8. \<open>getRank\<close> on a given table returns the first entry, in table order, whose range
  from \<open>minLevel\<close> to \<open>maxLevel\<close> contains the level, and \<open>null\<close> exactly when no entry's
  range contains it; the omitted table is \<open>DEFAULT_RANKS\<close>, with which every integer level
  from 1 to 100 has a rank and every level below 1 or above 100 has none.
\<close>

theorem getRank_first_match:
  "(getRank level (Some table) = Some r \<longleftrightarrow>
      (\<exists>i<length table. table ! i = r
          \<and> minLevel r \<le> level \<and> level \<le> RankDefinition.maxLevel r
          \<and> (\<forall>j<i. \<not> (minLevel (table ! j) \<le> level
                        \<and> level \<le> RankDefinition.maxLevel (table ! j)))))
   \<and> (getRank level (Some table) = None \<longleftrightarrow>
        (\<forall>r\<in>set table. \<not> (minLevel r \<le> level \<and> level \<le> RankDefinition.maxLevel r)))
   \<and> getRank level None = getRank level (Some DEFAULT_RANKS)
   \<and> (1 \<le> n \<and> n \<le> 100 \<longrightarrow> getRank (of_int n) None \<noteq> None)
   \<and> (level < 1 \<or> 100 < level \<longrightarrow> getRank level None = None)"
proof (intro conjI impI)
  show "getRank level (Some table) = Some r \<longleftrightarrow>
      (\<exists>i<length table. table ! i = r
          \<and> minLevel r \<le> level \<and> level \<le> RankDefinition.maxLevel r
          \<and> (\<forall>j<i. \<not> (minLevel (table ! j) \<le> level
                        \<and> level \<le> RankDefinition.maxLevel (table ! j))))"
    unfolding getRank_def Let_def option.case find_Some_iff by auto
  show "getRank level (Some table) = None \<longleftrightarrow>
        (\<forall>r\<in>set table. \<not> (minLevel r \<le> level \<and> level \<le> RankDefinition.maxLevel r))"
    unfolding getRank_def Let_def option.case find_None_iff by auto
  show "getRank level None = getRank level (Some DEFAULT_RANKS)"
    by (simp add: getRank_def)
next
  assume range: "1 \<le> n \<and> n \<le> 100"
  then have "n \<le> 10 \<or> (11 \<le> n \<and> n \<le> 25) \<or> (26 \<le> n \<and> n \<le> 50) \<or> (51 \<le> n \<and> n \<le> 75)
      \<or> (76 \<le> n \<and> n \<le> 90) \<or> 91 \<le> n" by arith
  with range show "getRank (of_int n) None \<noteq> None"
    by (auto simp add: getRank_def DEFAULT_RANKS_def)
next
  assume "level < 1 \<or> 100 < level"
  then show "getRank level None = None"
    by (auto simp add: getRank_def DEFAULT_RANKS_def)
qed

theorem getRank_first_match_witness:
  "(1::int) \<le> 50 \<and> (50::int) \<le> 100 \<and> getRank (of_int 50) None \<noteq> None
   \<and> (100::real) < 101 \<and> getRank 101 None = None
   \<and> getRank 101 (Some DEFAULT_RANKS) = None"
  using getRank_first_match [of 101 DEFAULT_RANKS "DEFAULT_RANKS ! 2" 50]
  by (auto simp add: DEFAULT_RANKS_def)

text \<open>
  C10. An empty rank table that the caller supplies is used as it is: \<open>getRank\<close> returns
  \<open>null\<close> and \<open>getRankTitle\<close> the empty string for every level. The default table stands in
  for an omitted table only, and the two calls differ (at level 1, for one).
\<close>

theorem getRank_empty_table:
  "getRank level (Some []) = None
   \<and> getRankTitle level (Some []) = ''''
   \<and> getRank level None = getRank level (Some DEFAULT_RANKS)
   \<and> getRankTitle level None = getRankTitle level (Some DEFAULT_RANKS)
   \<and> getRank 1 None \<noteq> getRank 1 (Some [])
   \<and> getRankTitle 1 None \<noteq> getRankTitle 1 (Some [])"
  by (simp add: getRank_def getRankTitle_def DEFAULT_RANKS_def)




text \<open>
  C9. The loop of \<open>calculateLevel\<close> does not terminate for every configuration: with
  \<open>maxLevel = 2^53\<close> and \<open>exponent = 0\<close> every level requires 100 XP, so with 100 XP the search
  always moves \<open>low\<close> to \<open>mid + 1\<close>; from \<open>mid = 2^53 - 1\<close> on that sum is \<open>2^53\<close>, and
  at \<open>low = high = mid = 2^53\<close> the sum \<open>mid + 1\<close> rounds back to \<open>2^53\<close>, so \<open>low \<le> high\<close> holds
  for ever and the call never returns.
\<close>

theorem calculateLevel_hangs:
  "calculateLevel (Fin 100)
     \<lparr>baseXP = None, exponent = Some (Fin 0), maxLevel = Some (Fin (2 ^ 53))\<rparr> = None"
  using calculateLevel_loop_hangs [of 1]
  by (simp add: calculateLevel_def merge_options_def Let_def)



end
